theory Spec2Isabelle
  imports Main
begin

section \<open>Data model of electron-localshortcut (src/index.js)\<close>

text \<open>
  Exceptions are values. \<open>TypeError\<close> is what the JavaScript runtime raises on a property
  read of \<open>undefined\<close>, on a call of something that is not a function and on iterating
  something that is not iterable; \<open>Error msg\<close> is \<open>throw new Error(msg)\<close> of the source.
  The accelerator parser can throw too (it does for a string that is no accelerator);
  its exception is whatever \<open>error\<close> the parser parameter returns.
  An operation that can throw returns \<open>Inl\<close> of the exception or \<open>Inr\<close> of its result;
  what a call had already changed when it threw is not part of the result.
\<close>

datatype error = TypeError | Error string

text \<open>
  The \<open>input\<close> argument of Electron's \<open>before-input-event\<close>. A property that is
  undefined (or missing) is \<open>None\<close>.
\<close>

record input =
  type :: string
  code :: "string option"
  key :: "string option"
  alt :: "bool option"
  shift :: "bool option"
  meta :: "bool option"
  control :: "bool option"

text \<open>
  A keyboard event as \<open>_normalizeEvent\<close> builds it and as \<open>toKeyEvent\<close> returns it:
  the object compared by \<open>equals\<close>. Again \<open>None\<close> is an undefined or missing property.
\<close>

record keyEvent =
  code :: "string option"
  key :: "string option"
  altKey :: "bool option"
  shiftKey :: "bool option"
  metaKey :: "bool option"
  ctrlKey :: "bool option"

text \<open>
  The object pushed by \<open>register\<close>. A callback is a JavaScript function; it is
  represented by its identity, and what it does when called is given by a
  function \<open>run\<close> passed to the dispatcher.
\<close>

record shortcut =
  eventStamp :: keyEvent
  callback :: nat
  enabled :: bool

text \<open>
  Keys of the WeakMap \<open>windowsWithShortcuts\<close>: the placeholder object \<open>ANY_WINDOW\<close> or the
  \<open>webContents\<close> object of a window (identified by a number).
\<close>

datatype target = ANY_WINDOW | WebContents nat

text \<open>
  The closures stored in \<open>shortcutsOfWindow.removeListener\<close> and given to
  \<open>wc.once('closed', ...)\<close>. The key handler \<open>_onBeforeInput(shortcutsOfWindow)\<close> is a
  closure over one array; it is represented by the address of that array.
  \<open>RemoveFromWindow wc h\<close> is \<open>() => wc.removeListener('before-input-event', keyHandler)\<close>
  (lines 233 and 257-258), \<open>RemoveFromApp h\<close> is the closure of lines 245-251.
\<close>

datatype remover = RemoveFromWindow nat nat | RemoveFromApp nat

text \<open>
  The array \<open>shortcutsOfWindow\<close>: its elements and its extra property
  \<open>removeListener\<close> (undefined until line 245 or 257 sets it).
\<close>

record shortcutArray =
  elems :: "shortcut list"
  removeListener :: "remover option"

text \<open>
  The mutable world of the module. Arrays are shared between the registry and the key
  handlers that closed over them, so they live in a store: \<open>arrays\<close> maps an address to
  the array there and \<open>nextArray\<close> is the next fresh address. A bucket
  (\<open>shortcutsOfWindowByState\<close>) is a plain object used as a dictionary from state names
  to arrays; its own properties are kept in creation order.
  \<open>listeners wc\<close> are the \<open>before-input-event\<close> listeners of a webContents in the
  order they were added, \<open>closedHooks wc\<close> its one-shot \<open>closed\<close> listeners,
  \<open>allWindows\<close> is \<open>BrowserWindow.getAllWindows()\<close> (each window by its webContents) and
  \<open>windowCreated\<close> are the \<open>browser-window-created\<close> listeners of \<open>app\<close> (the closure
  \<open>enableAppShortcuts\<close>, by the key handler it installs).
\<close>

record state =
  windowsWithShortcuts :: "target \<Rightarrow> (string \<times> nat) list option"
  arrays :: "nat \<Rightarrow> shortcutArray"
  nextArray :: nat
  listeners :: "nat \<Rightarrow> nat list"
  closedHooks :: "nat \<Rightarrow> remover list"
  allWindows :: "nat list"
  windowCreated :: "nat list"

text \<open>A \<open>BrowserWindow\<close> argument: its \<open>webContents\<close> and the answer of \<open>isDestroyed()\<close>.\<close>

record window =
  webContents :: nat
  isDestroyed :: bool

section \<open>Property lookup in a bucket\<close>

text \<open>
  \<open>shortcutsOfWindowByState[state]\<close> reads a property of an object created by \<open>{}\<close>:
  an own property if there is one, otherwise what the object inherits from
  \<open>Object.prototype\<close>. Every inherited value is truthy, is not an array, has no
  \<open>push\<close> method and is not iterable.
\<close>

datatype property = Undefined | Array nat | Inherited

definition objectPrototype :: "string list" where
  "objectPrototype =
     [''constructor'', ''hasOwnProperty'', ''isPrototypeOf'', ''propertyIsEnumerable'',
      ''toLocaleString'', ''toString'', ''valueOf'', ''__proto__'',
      ''__defineGetter__'', ''__defineSetter__'', ''__lookupGetter__'', ''__lookupSetter__'']"

definition getProp :: "(string \<times> nat) list \<Rightarrow> string \<Rightarrow> property" where
  "getProp obj name =
     (case map_of obj name of
        Some a \<Rightarrow> Array a
      | None \<Rightarrow> if name \<in> set objectPrototype then Inherited else Undefined)"

section \<open>Normalizing and finding\<close>

text \<open>Lines 127-144. A modifier is copied only when it is defined.\<close>

definition normalizeEvent :: "input \<Rightarrow> keyEvent" where
  "normalizeEvent i =
     \<lparr>code = input.code i, key = input.key i,
      altKey = alt i, shiftKey = shift i, metaKey = meta i, ctrlKey = control i\<rparr>"

text \<open>
  Lines 146-157. \<open>equals\<close> (package keyboardevents-areequal) is a parameter \<open>eq\<close>.
  The loop counts from \<open>i\<close>; the result is the index of the first match or \<open>-1\<close>.
\<close>

fun findFrom :: "(keyEvent \<Rightarrow> keyEvent \<Rightarrow> bool) \<Rightarrow> keyEvent \<Rightarrow> int \<Rightarrow> shortcut list \<Rightarrow> int" where
  "findFrom eq event i [] = -1"
| "findFrom eq event i (sh # shs) =
     (if eq (eventStamp sh) event then i else findFrom eq event (i + 1) shs)"

definition findShortcut :: "(keyEvent \<Rightarrow> keyEvent \<Rightarrow> bool) \<Rightarrow> keyEvent \<Rightarrow> shortcut list \<Rightarrow> int" where
  "findShortcut eq event shortcutsOfWindow = findFrom eq event 0 shortcutsOfWindow"

section \<open>The dispatcher\<close>

text \<open>
  Lines 159-177. The handler is a closure over the array at address \<open>a\<close>. The
  \<open>for ... of\<close> loop is an array iterator: before each step it compares its index
  with the current length of the array and then reads the current element at that
  index, so the array is read from the current state at every step. \<open>run cb s\<close> is the
  call \<open>callback()\<close>: it may change the whole state and may throw. The result is the
  list of callbacks that were called, in order, and how the handler ended.
\<close>

function scan ::
  "(keyEvent \<Rightarrow> keyEvent \<Rightarrow> bool) \<Rightarrow> (nat \<Rightarrow> 'a state_scheme \<Rightarrow> error + 'a state_scheme) \<Rightarrow>
   nat \<Rightarrow> keyEvent \<Rightarrow> nat \<Rightarrow> 'a state_scheme \<Rightarrow> nat list \<times> (error + 'a state_scheme)" where
  "scan eq run a event i s =
     (if i < length (elems (arrays s a)) then
        (let sh = elems (arrays s a) ! i in
         if enabled sh \<and> eq (eventStamp sh) event
         then ([callback sh], run (callback sh) s)
         else scan eq run a event (Suc i) s)
      else ([], Inr s))"
  by pat_completeness auto
termination
  by (relation "measure (\<lambda>(eq, run, a, event, i, s). length (elems (arrays s a)) - i)") auto

declare scan.simps [simp del]

definition onBeforeInput ::
  "(keyEvent \<Rightarrow> keyEvent \<Rightarrow> bool) \<Rightarrow> (nat \<Rightarrow> 'a state_scheme \<Rightarrow> error + 'a state_scheme) \<Rightarrow>
   nat \<Rightarrow> input \<Rightarrow> 'a state_scheme \<Rightarrow> nat list \<times> (error + 'a state_scheme)" where
  "onBeforeInput eq run a i s =
     (if type i = ''keyUp'' then ([], Inr s)
      else scan eq run a (normalizeEvent i) 0 s)"

section \<open>Listeners\<close>

text \<open>
  \<open>emitter.removeListener(name, f)\<close> of Node's EventEmitter removes at most one
  occurrence of \<open>f\<close>, the one added last.
\<close>

definition removeLast :: "nat \<Rightarrow> nat list \<Rightarrow> nat list" where
  "removeLast h hs = rev (remove1 h (rev hs))"

text \<open>\<open>wc.on('before-input-event', keyHandler)\<close>\<close>

definition addListener :: "nat \<Rightarrow> nat \<Rightarrow> 'a state_scheme \<Rightarrow> 'a state_scheme" where
  "addListener wc h s = s\<lparr>listeners := (listeners s)(wc := listeners s wc @ [h])\<rparr>"

text \<open>\<open>wc.removeListener('before-input-event', keyHandler)\<close>\<close>

definition dropListener :: "nat \<Rightarrow> nat \<Rightarrow> 'a state_scheme \<Rightarrow> 'a state_scheme" where
  "dropListener wc h s = s\<lparr>listeners := (listeners s)(wc := removeLast h (listeners s wc))\<rparr>"

text \<open>\<open>wc.once('closed', r)\<close>\<close>

definition onceClosed :: "nat \<Rightarrow> remover \<Rightarrow> 'a state_scheme \<Rightarrow> 'a state_scheme" where
  "onceClosed wc r s = s\<lparr>closedHooks := (closedHooks s)(wc := closedHooks s wc @ [r])\<rparr>"

text \<open>Lines 229-235, for the key handler \<open>h\<close> and the window with webContents \<open>wc\<close>.\<close>

definition enableAppShortcuts :: "nat \<Rightarrow> nat \<Rightarrow> 'a state_scheme \<Rightarrow> 'a state_scheme" where
  "enableAppShortcuts h wc s = onceClosed wc (RemoveFromWindow wc h) (addListener wc h s)"

text \<open>Calling a stored \<open>removeListener\<close> closure (lines 245-251 and 257-258).\<close>

fun runRemover :: "remover \<Rightarrow> 'a state_scheme \<Rightarrow> 'a state_scheme" where
  "runRemover (RemoveFromWindow wc h) s = dropListener wc h s"
| "runRemover (RemoveFromApp h) s =
     (let s1 = fold (\<lambda>wc. dropListener wc h) (allWindows s) s
      in s1\<lparr>windowCreated := removeLast h (windowCreated s1)\<rparr>)"

definition setRemoveListener :: "nat \<Rightarrow> remover \<Rightarrow> 'a state_scheme \<Rightarrow> 'a state_scheme" where
  "setRemoveListener a r s = s\<lparr>arrays := (arrays s)(a := (arrays s a)\<lparr>removeListener := Some r\<rparr>)\<rparr>"

text \<open>
  Lines 225-261, the body of \<open>if (shortcutsOfWindow.length === 0)\<close>: the handler closes
  over the array at \<open>a\<close>.
\<close>

definition installListener :: "target \<Rightarrow> nat \<Rightarrow> 'a state_scheme \<Rightarrow> 'a state_scheme" where
  "installListener wc a s =
     (case wc of
        ANY_WINDOW \<Rightarrow>
          (let s1 = fold (enableAppShortcuts a) (allWindows s) s;
               s2 = s1\<lparr>windowCreated := windowCreated s1 @ [a]\<rparr>
           in setRemoveListener a (RemoveFromApp a) s2)
      | WebContents w \<Rightarrow>
          onceClosed w (RemoveFromWindow w a)
            (setRemoveListener a (RemoveFromWindow w a) (addListener w a s)))"

section \<open>register\<close>

text \<open>
  Lines 190-197 and 284-295: without a window the key of the WeakMap is the placeholder
  \<open>ANY_WINDOW\<close>, otherwise the window's \<open>webContents\<close>.
\<close>

definition targetOf :: "window option \<Rightarrow> target" where
  "targetOf win = (case win of None \<Rightarrow> ANY_WINDOW | Some w \<Rightarrow> WebContents (webContents w))"

text \<open>
  Lines 208-273, the part of \<open>register\<close> after the arguments are sorted out, for one
  accelerator string. \<open>toKeyEvent\<close> (package keyboardevent-from-electron-accelerator)
  is a parameter: it returns the event of an accelerator (\<open>Inr\<close>) or throws (\<open>Inl\<close>).
  It is called on line 265, after the bucket and the group have been created and the
  listener installed, and before the \<open>push\<close> of line 267. \<open>debug\<close> and
  \<open>_checkAccelerator\<close> only write diagnostics and are left out. With a state name that
  the bucket inherits from \<open>Object.prototype\<close>, line 220 finds a truthy value that is no
  array and \<open>shortcutsOfWindow.push\<close> on line 267 is not a function.
\<close>

definition registerOne ::
  "(string \<Rightarrow> error + keyEvent) \<Rightarrow> target \<Rightarrow> string \<Rightarrow> string \<Rightarrow> nat \<Rightarrow>
   'a state_scheme \<Rightarrow> error + 'a state_scheme" where
  "registerOne toKeyEvent wc st accelerator cb s =
     (let shortcutsOfWindowByState =
            (case windowsWithShortcuts s wc of None \<Rightarrow> [] | Some b \<Rightarrow> b);
          s1 = (case windowsWithShortcuts s wc of
                  None \<Rightarrow> s\<lparr>windowsWithShortcuts := (windowsWithShortcuts s)(wc \<mapsto> [])\<rparr>
                | Some b \<Rightarrow> s);
          first = (\<lambda>a s. if length (elems (arrays s a)) = 0 then installListener wc a s else s);
          push = (\<lambda>a stamp s.
                    s\<lparr>arrays := (arrays s)
                        (a := (arrays s a)
                           \<lparr>elems := elems (arrays s a) @
                              [\<lparr>eventStamp = stamp, callback = cb, enabled = True\<rparr>]\<rparr>)\<rparr>);
          stampAndPush = (\<lambda>a s. case toKeyEvent accelerator of
                                    Inl e \<Rightarrow> Inl e
                                  | Inr stamp \<Rightarrow> Inr (push a stamp s))
      in case getProp shortcutsOfWindowByState st of
           Inherited \<Rightarrow>
             (case toKeyEvent accelerator of Inl e \<Rightarrow> Inl e | Inr stamp \<Rightarrow> Inl TypeError)
         | Array a \<Rightarrow> stampAndPush a (first a s1)
         | Undefined \<Rightarrow>
             (let a = nextArray s1;
                  s2 = s1\<lparr>arrays := (arrays s1)(a := \<lparr>elems = [], removeListener = None\<rparr>),
                          nextArray := Suc a,
                          windowsWithShortcuts :=
                            (windowsWithShortcuts s1)(wc \<mapsto> shortcutsOfWindowByState @ [(st, a)])\<rparr>
              in stampAndPush a (first a s2)))"

text \<open>
  The \<open>accelerator\<close> argument: one string, or an array whose elements are strings or
  anything else (\<open>forEach\<close> skips what is not a string).
\<close>

datatype element = Str string | NotString

datatype accelerators = Single string | Many "element list"

fun forEachString ::
  "(string \<Rightarrow> 'a state_scheme \<Rightarrow> error + 'a state_scheme) \<Rightarrow> element list \<Rightarrow>
   'a state_scheme \<Rightarrow> error + 'a state_scheme" where
  "forEachString f [] s = Inr s"
| "forEachString f (Str x # xs) s =
     (case f x s of Inl e \<Rightarrow> Inl e | Inr s' \<Rightarrow> forEachString f xs s')"
| "forEachString f (NotString # xs) s = forEachString f xs s"

text \<open>
  Lines 189-206. \<open>win = None\<close> is the call without a window,
  \<open>register(accelerator, state, callback)\<close>. In that form an array makes the
  recursive call of line 202 pass the array itself as \<open>win\<close>: its \<open>webContents\<close> is
  undefined and \<open>windowsWithShortcuts.set(undefined, ...)\<close> throws.
\<close>

definition register ::
  "(string \<Rightarrow> error + keyEvent) \<Rightarrow> window option \<Rightarrow> string \<Rightarrow> accelerators \<Rightarrow> nat \<Rightarrow>
   'a state_scheme \<Rightarrow> error + 'a state_scheme" where
  "register toKeyEvent win st accelerator cb s =
     (case accelerator of
        Many xs \<Rightarrow>
          (case win of
             None \<Rightarrow> forEachString (\<lambda>x s. Inl TypeError) xs s
           | Some w \<Rightarrow>
               forEachString (\<lambda>x. registerOne toKeyEvent (WebContents (webContents w)) st x cb) xs s)
      | Single x \<Rightarrow>
          registerOne toKeyEvent (targetOf win) st x cb s)"

section \<open>unregister\<close>

text \<open>
  Line 340 compares the array \<open>Object.keys(shortcutsOfWindowByState)\<close> with the number
  \<open>0\<close> by \<open>===\<close>: values of different types, so the comparison is false for every bucket.
\<close>

definition keysStrictEqualsZero :: "(string \<times> nat) list \<Rightarrow> bool" where
  "keysStrictEqualsZero shortcutsOfWindowByState = False"

text \<open>\<open>shortcutsOfWindow.splice(shortcutIdx, 1)\<close> for an index inside the array.\<close>

definition splice1 :: "nat \<Rightarrow> 'b list \<Rightarrow> 'b list" where
  "splice1 i xs = take i xs @ drop (Suc i) xs"

text \<open>
  Lines 306-343, for one accelerator string. When the window has no bucket, line 313
  only writes a diagnostic and line 317 reads a property of \<open>undefined\<close>. The
  parser is called on line 323, once the group has been found. With an inherited state
  name \<open>_findShortcut\<close> then iterates something that is not iterable.
\<close>

definition unregisterOne ::
  "(keyEvent \<Rightarrow> keyEvent \<Rightarrow> bool) \<Rightarrow> (string \<Rightarrow> error + keyEvent) \<Rightarrow> target \<Rightarrow> string \<Rightarrow> string \<Rightarrow>
   'a state_scheme \<Rightarrow> error + 'a state_scheme" where
  "unregisterOne eq toKeyEvent wc st accelerator s =
     (case windowsWithShortcuts s wc of
        None \<Rightarrow> Inl TypeError
      | Some shortcutsOfWindowByState \<Rightarrow>
          (case getProp shortcutsOfWindowByState st of
             Undefined \<Rightarrow> Inr s
           | Inherited \<Rightarrow>
               (case toKeyEvent accelerator of Inl e \<Rightarrow> Inl e | Inr stamp \<Rightarrow> Inl TypeError)
           | Array a \<Rightarrow>
               (case toKeyEvent accelerator of
                  Inl e \<Rightarrow> Inl e
                | Inr stamp \<Rightarrow>
               (let shortcutIdx = findShortcut eq stamp (elems (arrays s a))
                in if shortcutIdx = -1 then Inr s
                   else
                     (let s1 = s\<lparr>arrays := (arrays s)
                                 (a := (arrays s a)\<lparr>elems := splice1 (nat shortcutIdx) (elems (arrays s a))\<rparr>)\<rparr>;
                          emptied = (length (elems (arrays s1 a)) = 0);
                          remaining = (if emptied then filter (\<lambda>p. fst p \<noteq> st) shortcutsOfWindowByState
                                       else shortcutsOfWindowByState)
                      in case (if emptied then
                                 (case removeListener (arrays s1 a) of
                                    None \<Rightarrow> Inl TypeError
                                  | Some r \<Rightarrow>
                                      (let s2 = runRemover r s1
                                       in Inr (s2\<lparr>windowsWithShortcuts :=
                                                    (windowsWithShortcuts s2)(wc \<mapsto> remaining)\<rparr>)))
                               else Inr s1) of
                           Inl e \<Rightarrow> Inl e
                         | Inr s3 \<Rightarrow>
                             if keysStrictEqualsZero remaining
                             then Inr (s3\<lparr>windowsWithShortcuts := (windowsWithShortcuts s3)(wc := None)\<rparr>)
                             else Inr s3)))))"

text \<open>
  Lines 283-304. \<open>win = None\<close> is the call without a window,
  \<open>unregister(accelerator, state)\<close>. In that form an array makes the recursive call of
  line 300 pass the array itself as \<open>win\<close>, and \<open>win.isDestroyed\<close> is not a function.
\<close>

definition unregister ::
  "(keyEvent \<Rightarrow> keyEvent \<Rightarrow> bool) \<Rightarrow> (string \<Rightarrow> error + keyEvent) \<Rightarrow> window option \<Rightarrow> string \<Rightarrow>
   accelerators \<Rightarrow> 'a state_scheme \<Rightarrow> error + 'a state_scheme" where
  "unregister eq toKeyEvent win st accelerator s =
     (case win of
        None \<Rightarrow>
          (case accelerator of
             Many xs \<Rightarrow> forEachString (\<lambda>x s. Inl TypeError) xs s
           | Single x \<Rightarrow> unregisterOne eq toKeyEvent ANY_WINDOW st x s)
      | Some w \<Rightarrow>
          if isDestroyed w then Inr s
          else
            (case accelerator of
               Many xs \<Rightarrow>
                 forEachString (unregisterOne eq toKeyEvent (WebContents (webContents w)) st) xs s
             | Single x \<Rightarrow> unregisterOne eq toKeyEvent (WebContents (webContents w)) st x s))"

section \<open>isRegistered\<close>

text \<open>
  Lines 356-371. The parser is called on line 368, after the two checks; its exception
  is not caught.
\<close>

definition isRegistered ::
  "(keyEvent \<Rightarrow> keyEvent \<Rightarrow> bool) \<Rightarrow> (string \<Rightarrow> error + keyEvent) \<Rightarrow> window \<Rightarrow> string \<Rightarrow> string \<Rightarrow>
   'a state_scheme \<Rightarrow> error + bool" where
  "isRegistered eq toKeyEvent win st accelerator s =
     (case windowsWithShortcuts s (WebContents (webContents win)) of
        None \<Rightarrow> Inl (Error ''No shortcuts registered for this window'')
      | Some shortcutsOfWindowByState \<Rightarrow>
          (case getProp shortcutsOfWindowByState st of
             Undefined \<Rightarrow> Inl (Error ''No shortcuts registered for this state'')
           | Inherited \<Rightarrow>
               (case toKeyEvent accelerator of Inl e \<Rightarrow> Inl e | Inr stamp \<Rightarrow> Inl TypeError)
           | Array a \<Rightarrow>
               (case toKeyEvent accelerator of
                  Inl e \<Rightarrow> Inl e
                | Inr stamp \<Rightarrow> Inr (findShortcut eq stamp (elems (arrays s a)) \<noteq> -1))))"

section \<open>Enabling and disabling\<close>

text \<open>
  The nested loops of lines 63-67, 80-84 and 97-105: \<open>for ... in\<close> visits the own
  properties of the bucket (none when the bucket is undefined), the inner loop assigns
  \<open>enabled\<close> in every element of that state's array. \<open>v currState\<close> is the value assigned.
\<close>

definition setEnabled :: "bool \<Rightarrow> shortcutArray \<Rightarrow> shortcutArray" where
  "setEnabled v arr = arr\<lparr>elems := map (\<lambda>sh. sh\<lparr>enabled := v\<rparr>) (elems arr)\<rparr>"

definition forEachState ::
  "(string \<Rightarrow> bool) \<Rightarrow> (string \<times> nat) list \<Rightarrow> 'a state_scheme \<Rightarrow> 'a state_scheme" where
  "forEachState v shortcutsOfWindowByState s =
     fold (\<lambda>(currState, a) s. s\<lparr>arrays := (arrays s)(a := setEnabled (v currState) (arrays s a))\<rparr>)
       shortcutsOfWindowByState s"

definition disableAll :: "window \<Rightarrow> 'a state_scheme \<Rightarrow> 'a state_scheme" where
  "disableAll win s =
     (case windowsWithShortcuts s (WebContents (webContents win)) of
        None \<Rightarrow> s
      | Some shortcutsOfWindowByState \<Rightarrow> forEachState (\<lambda>currState. False) shortcutsOfWindowByState s)"

definition enableAll :: "window \<Rightarrow> 'a state_scheme \<Rightarrow> 'a state_scheme" where
  "enableAll win s =
     (case windowsWithShortcuts s (WebContents (webContents win)) of
        None \<Rightarrow> s
      | Some shortcutsOfWindowByState \<Rightarrow> forEachState (\<lambda>currState. True) shortcutsOfWindowByState s)"

definition enableOnlyForState :: "window \<Rightarrow> string \<Rightarrow> 'a state_scheme \<Rightarrow> 'a state_scheme" where
  "enableOnlyForState win st s =
     (case windowsWithShortcuts s (WebContents (webContents win)) of
        None \<Rightarrow> s
      | Some shortcutsOfWindowByState \<Rightarrow>
          forEachState (\<lambda>currState. st = currState) shortcutsOfWindowByState s)"

text \<open>
  Lines 114-125. The bucket object is dropped from the WeakMap at the end, so the
  \<open>delete\<close> of each state inside the loop is not visible afterwards.
\<close>

fun removeAll :: "(string \<times> nat) list \<Rightarrow> 'a state_scheme \<Rightarrow> error + 'a state_scheme" where
  "removeAll [] s = Inr s"
| "removeAll ((st, a) # rest) s =
     (case removeListener (arrays s a) of
        None \<Rightarrow> Inl TypeError
      | Some r \<Rightarrow> removeAll rest (runRemover r s))"

definition unregisterAll :: "window \<Rightarrow> 'a state_scheme \<Rightarrow> error + 'a state_scheme" where
  "unregisterAll win s =
     (let wc = WebContents (webContents win)
      in case windowsWithShortcuts s wc of
           None \<Rightarrow> Inr s
         | Some shortcutsOfWindowByState \<Rightarrow>
             (case removeAll shortcutsOfWindowByState s of
                Inl e \<Rightarrow> Inl e
              | Inr s' \<Rightarrow> Inr (s'\<lparr>windowsWithShortcuts := (windowsWithShortcuts s')(wc := None)\<rparr>)))"

section \<open>The dispatcher over a snapshot\<close>

text \<open>
  The dispatcher as the design notes of the specification describe it: the entry
  sequence of the group is copied when the dispatch starts and the scan runs over the
  copy, whatever a callback does to the store. It is compared with \<open>onBeforeInput\<close>
  below.
\<close>

fun scanSnapshot ::
  "(keyEvent \<Rightarrow> keyEvent \<Rightarrow> bool) \<Rightarrow> (nat \<Rightarrow> 'a state_scheme \<Rightarrow> error + 'a state_scheme) \<Rightarrow>
   keyEvent \<Rightarrow> shortcut list \<Rightarrow> 'a state_scheme \<Rightarrow> nat list \<times> (error + 'a state_scheme)" where
  "scanSnapshot eq run event [] s = ([], Inr s)"
| "scanSnapshot eq run event (sh # shs) s =
     (if enabled sh \<and> eq (eventStamp sh) event
      then ([callback sh], run (callback sh) s)
      else scanSnapshot eq run event shs s)"

definition dispatchSnapshot ::
  "(keyEvent \<Rightarrow> keyEvent \<Rightarrow> bool) \<Rightarrow> (nat \<Rightarrow> 'a state_scheme \<Rightarrow> error + 'a state_scheme) \<Rightarrow>
   nat \<Rightarrow> input \<Rightarrow> 'a state_scheme \<Rightarrow> nat list \<times> (error + 'a state_scheme)" where
  "dispatchSnapshot eq run a i s =
     (if type i = ''keyUp'' then ([], Inr s)
      else (let snapshot = elems (arrays s a)
            in scanSnapshot eq run (normalizeEvent i) snapshot s))"

section \<open>Concrete values for evaluation\<close>

text \<open>
  The state of a freshly loaded module in an application with the open windows \<open>ws\<close>:
  an empty WeakMap, no arrays, no listeners.
\<close>

definition initial :: "nat list \<Rightarrow> state" where
  "initial ws =
     \<lparr>windowsWithShortcuts = (\<lambda>wc. None),
      arrays = (\<lambda>a. \<lparr>elems = [], removeListener = None\<rparr>),
      nextArray = 0,
      listeners = (\<lambda>wc. []),
      closedHooks = (\<lambda>wc. []),
      allWindows = ws,
      windowCreated = []\<rparr>"

text \<open>
  A stand-in for the two packages, used only to evaluate the functions at concrete
  inputs: the key of the event is the accelerator string itself, no modifiers, and two
  events are equal when their keys are. The stand-in parser \<open>parseKeyOnly\<close> throws for
  the accelerator \<open>Ctrl+Foo\<close>, as the package does for a key code it does not know, and
  accepts every other string.
\<close>

definition keyOnly :: "string \<Rightarrow> keyEvent" where
  "keyOnly accelerator =
     \<lparr>code = None, key = Some accelerator,
      altKey = None, shiftKey = None, metaKey = None, ctrlKey = None\<rparr>"

definition parseKeyOnly :: "string \<Rightarrow> error + keyEvent" where
  "parseKeyOnly accelerator =
     (if accelerator = ''Ctrl+Foo'' then Inl (Error ''Unvalid keycode'')
      else Inr (keyOnly accelerator))"

definition sameKey :: "keyEvent \<Rightarrow> keyEvent \<Rightarrow> bool" where
  "sameKey x y = (key x = key y)"

definition keyDown :: "string \<Rightarrow> input" where
  "keyDown k =
     \<lparr>type = ''keyDown'', code = None, key = Some k,
      alt = None, shift = None, meta = None, control = None\<rparr>"

definition liveWindow :: "nat \<Rightarrow> window" where
  "liveWindow wc = \<lparr>webContents = wc, isDestroyed = False\<rparr>"

section \<open>Observations of a state\<close>

text \<open>
  The array registered for a window (or \<open>ANY_WINDOW\<close>) and a state name as an own
  property of the bucket, if any, and the entries of that group (none when there is no
  bucket or no such group).
\<close>

definition groupOf :: "'a state_scheme \<Rightarrow> target \<Rightarrow> string \<Rightarrow> nat option" where
  "groupOf s wc st = (case windowsWithShortcuts s wc of None \<Rightarrow> None | Some b \<Rightarrow> map_of b st)"

definition entriesOf :: "'a state_scheme \<Rightarrow> target \<Rightarrow> string \<Rightarrow> shortcut list" where
  "entriesOf s wc st = (case groupOf s wc st of None \<Rightarrow> [] | Some a \<Rightarrow> elems (arrays s a))"

text \<open>
  The state after \<open>register(win, 'normal', 'Ctrl+A', cb7)\<close> on the only window of a
  fresh application, and the state after a following
  \<open>register(win, 'edit', 'Ctrl+B', cb8)\<close> (see \<open>register_initial\<close> and
  \<open>register_second\<close> below).
\<close>

definition oneShortcut :: state where
  "oneShortcut =
     \<lparr>windowsWithShortcuts = (\<lambda>wc. None)(WebContents 1 \<mapsto> [(''normal'', 0)]),
      arrays = (\<lambda>a. \<lparr>elems = [], removeListener = None\<rparr>)
        (0 := \<lparr>elems = [\<lparr>eventStamp = keyOnly ''Ctrl+A'', callback = 7, enabled = True\<rparr>],
               removeListener = Some (RemoveFromWindow 1 0)\<rparr>),
      nextArray = 1,
      listeners = (\<lambda>wc. [])(1 := [0]),
      closedHooks = (\<lambda>wc. [])(1 := [RemoveFromWindow 1 0]),
      allWindows = [1],
      windowCreated = []\<rparr>"

definition twoStates :: state where
  "twoStates =
     \<lparr>windowsWithShortcuts = (\<lambda>wc. None)(WebContents 1 \<mapsto> [(''normal'', 0), (''edit'', 1)]),
      arrays = (\<lambda>a. \<lparr>elems = [], removeListener = None\<rparr>)
        (0 := \<lparr>elems = [\<lparr>eventStamp = keyOnly ''Ctrl+A'', callback = 7, enabled = True\<rparr>],
               removeListener = Some (RemoveFromWindow 1 0)\<rparr>,
         1 := \<lparr>elems = [\<lparr>eventStamp = keyOnly ''Ctrl+B'', callback = 8, enabled = True\<rparr>],
               removeListener = Some (RemoveFromWindow 1 1)\<rparr>),
      nextArray = 2,
      listeners = (\<lambda>wc. [])(1 := [0, 1]),
      closedHooks = (\<lambda>wc. [])(1 := [RemoveFromWindow 1 0, RemoveFromWindow 1 1]),
      allWindows = [1],
      windowCreated = []\<rparr>"

text \<open>Sequencing of calls that may throw: the second call runs only if the first returned.\<close>

definition andThen :: "error + 'b \<Rightarrow> ('b \<Rightarrow> error + 'c) \<Rightarrow> error + 'c" where
  "andThen r f = (case r of Inl e \<Rightarrow> Inl e | Inr s \<Rightarrow> f s)"

section \<open>Well-formed states\<close>

text \<open>
  What \<open>register\<close> and \<open>unregister\<close> keep true of every bucket: its state names are
  distinct, its arrays are distinct (no two states share an array) and every array has
  been allocated. It holds in the initial state and is preserved by every operation
  (lemmas \<open>wellFormed_initial\<close>, \<open>wellFormed_register\<close>, \<open>wellFormed_unregister\<close> and
  \<open>wellFormed_enable_disable\<close> below). Since no two states of a bucket share an array,
  the order in which \<open>for ... in\<close> visits the states does not matter.
\<close>

definition wellFormed :: "'a state_scheme \<Rightarrow> bool" where
  "wellFormed s =
     (\<forall>wc b. windowsWithShortcuts s wc = Some b \<longrightarrow>
        distinct (map fst b) \<and> distinct (map snd b) \<and> (\<forall>a\<in>set (map snd b). a < nextArray s))"

section \<open>A callback that unregisters itself\<close>

text \<open>
  \<open>siblings\<close> is \<open>oneShortcut\<close> after \<open>register(win, 'normal', 'Ctrl+B', cb8)\<close>: two
  entries in one group. Callback 7 is \<open>() => unregister(win, 'normal', 'Ctrl+A')\<close>,
  which removes its own entry; \<open>onlySibling\<close> is the state it leaves.
\<close>

definition siblings :: state where
  "siblings =
     oneShortcut\<lparr>arrays := (arrays oneShortcut)
       (0 := \<lparr>elems = [\<lparr>eventStamp = keyOnly ''Ctrl+A'', callback = 7, enabled = True\<rparr>,
                        \<lparr>eventStamp = keyOnly ''Ctrl+B'', callback = 8, enabled = True\<rparr>],
              removeListener = Some (RemoveFromWindow 1 0)\<rparr>)\<rparr>"

definition onlySibling :: state where
  "onlySibling =
     oneShortcut\<lparr>arrays := (arrays oneShortcut)
       (0 := \<lparr>elems = [\<lparr>eventStamp = keyOnly ''Ctrl+B'', callback = 8, enabled = True\<rparr>],
              removeListener = Some (RemoveFromWindow 1 0)\<rparr>)\<rparr>"

definition removesItself :: "nat \<Rightarrow> state \<Rightarrow> error + state" where
  "removesItself cb s =
     (if cb = 7 then unregister sameKey parseKeyOnly (Some (liveWindow 1)) ''normal'' (Single ''Ctrl+A'') s
      else Inr s)"

section \<open>Properties of the dispatcher\<close>

lemma scan_find:
  "scan eq run a event i s =
     (case find (\<lambda>sh. enabled sh \<and> eq (eventStamp sh) event) (drop i (elems (arrays s a))) of
        None \<Rightarrow> ([], Inr s)
      | Some sh \<Rightarrow> ([callback sh], run (callback sh) s))"
proof (induction eq run a event i s rule: scan.induct)
  case (1 eq run a event i s)
  show ?case
  proof (cases "i < length (elems (arrays s a))")
    case True
    then have d: "drop i (elems (arrays s a)) = elems (arrays s a) ! i # drop (Suc i) (elems (arrays s a))"
      by (simp add: Cons_nth_drop_Suc)
    show ?thesis
    proof (cases "enabled (elems (arrays s a) ! i) \<and> eq (eventStamp (elems (arrays s a) ! i)) event")
      case hit: True
      then show ?thesis using True d by (subst scan.simps) (simp add: Let_def)
    next
      case miss: False
      then have "scan eq run a event i s = scan eq run a event (Suc i) s"
        using True by (subst scan.simps) (auto simp add: Let_def)
      also have "\<dots> = (case find (\<lambda>sh. enabled sh \<and> eq (eventStamp sh) event) (drop (Suc i) (elems (arrays s a))) of
        None \<Rightarrow> ([], Inr s) | Some sh \<Rightarrow> ([callback sh], run (callback sh) s))"
        using "1.IH" True miss by simp
      finally show ?thesis using d miss by auto
    qed
  next
    case False
    then show ?thesis by (subst scan.simps) simp
  qed
qed

lemma scanSnapshot_find:
  "scanSnapshot eq run event shs s =
     (case find (\<lambda>sh. enabled sh \<and> eq (eventStamp sh) event) shs of
        None \<Rightarrow> ([], Inr s)
      | Some sh \<Rightarrow> ([callback sh], run (callback sh) s))"
  by (induction shs) auto

text \<open>
  Claim C1. One call of an installed key handler (a window has one handler for each of
  its state groups, each over its own group). A key-release event (\<open>type = keyUp\<close>)
  calls no callback and leaves the state as it is. For any other event the handler
  builds the normalized event, which has the \<open>code\<close> and \<open>key\<close> of the input and its
  \<open>alt\<close>, \<open>shift\<close>, \<open>meta\<close> and \<open>control\<close> modifiers as \<open>altKey\<close>, \<open>shiftKey\<close>,
  \<open>metaKey\<close> and \<open>ctrlKey\<close> (each left undefined when the input does not define it),
  and calls the callback of the first element of its array, in insertion order, that is
  enabled and whose event stamp equals that normalized event, and nothing else; when no
  enabled element matches, no callback is called. In every case the handler calls at
  most one callback.
\<close>

theorem onBeforeInput_first_enabled_match:
  "onBeforeInput eq run a i s =
     (if type i = ''keyUp'' then ([], Inr s)
      else case find (\<lambda>sh. enabled sh \<and>
                          eq (eventStamp sh)
                            \<lparr>code = input.code i, key = input.key i,
                             altKey = alt i, shiftKey = shift i,
                             metaKey = meta i, ctrlKey = control i\<rparr>)
                 (elems (arrays s a)) of
             None \<Rightarrow> ([], Inr s)
           | Some sh \<Rightarrow> ([callback sh], run (callback sh) s))
   \<and> length (fst (onBeforeInput eq run a i s)) \<le> 1"
  by (simp add: onBeforeInput_def normalizeEvent_def scan_find split: option.split)

text \<open>
  Claim C5. The handler reads its array from the store at every step of the scan, but
  it returns right after the one callback it calls, so no step of the scan runs after a
  callback has changed the store. For every callback behaviour \<open>run\<close> (registering or
  unregistering in the same group included) and in every state, hence at every later
  dispatch too, the handler calls the same callbacks and ends in the same way as the
  dispatcher that scans a copy taken when the dispatch starts.
\<close>

theorem onBeforeInput_is_dispatchSnapshot:
  "onBeforeInput eq run a i s = dispatchSnapshot eq run a i s"
  by (simp add: onBeforeInput_def dispatchSnapshot_def scan_find scanSnapshot_find)

section \<open>Concrete states are reachable\<close>

lemma register_initial:
  "register parseKeyOnly (Some (liveWindow 1)) ''normal'' (Single ''Ctrl+A'') 7 (initial [1]) = Inr oneShortcut"
  by (simp add: register_def registerOne_def initial_def oneShortcut_def liveWindow_def getProp_def targetOf_def
      objectPrototype_def installListener_def onceClosed_def setRemoveListener_def addListener_def Let_def
      parseKeyOnly_def)

lemma register_second:
  "register parseKeyOnly (Some (liveWindow 1)) ''edit'' (Single ''Ctrl+B'') 8 oneShortcut = Inr twoStates"
  by (simp add: register_def registerOne_def twoStates_def oneShortcut_def liveWindow_def getProp_def targetOf_def
      objectPrototype_def installListener_def onceClosed_def setRemoveListener_def addListener_def Let_def fun_upd_twist
      parseKeyOnly_def)

lemma findFrom_none:
  "0 \<le> i \<Longrightarrow> (findFrom eq ev i shs = -1) = (\<forall>sh\<in>set shs. \<not> eq (eventStamp sh) ev)"
  by (induction shs arbitrary: i) auto

lemma findShortcut_found:
  "(findShortcut eq ev shs \<noteq> -1) = (\<exists>sh\<in>set shs. eq (eventStamp sh) ev)"
  by (simp add: findShortcut_def findFrom_none)

lemma getProp_own: "map_of b st = Some a \<Longrightarrow> getProp b st = Array a"
  by (simp add: getProp_def)

lemma getProp_missing:
  "map_of b st = None \<Longrightarrow> getProp b st = (if st \<in> set objectPrototype then Inherited else Undefined)"
  by (simp add: getProp_def)

subsection \<open>Installing listeners\<close>

lemma fold_enableAppShortcuts_fields:
  "arrays (fold (enableAppShortcuts h) ws s) = arrays s"
  "windowsWithShortcuts (fold (enableAppShortcuts h) ws s) = windowsWithShortcuts s"
  "windowCreated (fold (enableAppShortcuts h) ws s) = windowCreated s"
  "nextArray (fold (enableAppShortcuts h) ws s) = nextArray s"
  by (induction ws arbitrary: s; simp add: enableAppShortcuts_def onceClosed_def addListener_def)+

lemma fold_enableAppShortcuts_listeners:
  "listeners (fold (enableAppShortcuts h) ws s) w = listeners s w @ replicate (count_list ws w) h"
  by (induction ws arbitrary: s)
     (auto simp add: enableAppShortcuts_def onceClosed_def addListener_def replicate_app_Cons_same)

lemma installListener_fields:
  "elems (arrays (installListener wc a s) a') = elems (arrays s a')"
  "windowsWithShortcuts (installListener wc a s) = windowsWithShortcuts s"
  "nextArray (installListener wc a s) = nextArray s"
  by (cases wc; simp add: installListener_def setRemoveListener_def onceClosed_def addListener_def
        fold_enableAppShortcuts_fields Let_def)+

lemma installListener_window:
  "listeners (installListener (WebContents w) a s) = (listeners s)(w := listeners s w @ [a])"
  "windowCreated (installListener (WebContents w) a s) = windowCreated s"
  by (simp_all add: installListener_def setRemoveListener_def onceClosed_def addListener_def)

lemma installListener_any:
  "listeners (installListener ANY_WINDOW a s) w = listeners s w @ replicate (count_list (allWindows s) w) a"
  "windowCreated (installListener ANY_WINDOW a s) = windowCreated s @ [a]"
  by (simp_all add: installListener_def setRemoveListener_def Let_def
        fold_enableAppShortcuts_fields fold_enableAppShortcuts_listeners)

lemma installListener_listeners:
  "listeners (installListener wc a s) =
     (case wc of
        WebContents w \<Rightarrow> (listeners s)(w := listeners s w @ [a])
      | ANY_WINDOW \<Rightarrow> (\<lambda>w. listeners s w @ replicate (count_list (allWindows s) w) a))"
  by (cases wc) (auto simp add: installListener_window installListener_any)

lemma installListener_windowCreated:
  "windowCreated (installListener wc a s) =
     (if wc = ANY_WINDOW then windowCreated s @ [a] else windowCreated s)"
  by (cases wc) (auto simp add: installListener_window installListener_any)

lemma registerOne_throws:
  "st \<notin> set objectPrototype \<Longrightarrow> toKeyEvent accelerator = Inl e \<Longrightarrow>
   registerOne toKeyEvent wc st accelerator cb s = Inl e"
  by (simp add: registerOne_def getProp_def Let_def split: option.split)

lemma registerOne_effect:
  assumes own: "st \<notin> set objectPrototype" and parsed: "toKeyEvent accelerator = Inr d"
  shows "\<exists>s' a. registerOne toKeyEvent wc st accelerator cb s = Inr s' \<and>
           groupOf s' wc st = Some a \<and>
           elems (arrays s' a) =
             entriesOf s wc st @ [\<lparr>eventStamp = d, callback = cb, enabled = True\<rparr>] \<and>
           (\<forall>a'. a' \<noteq> a \<longrightarrow> elems (arrays s' a') = elems (arrays s a')) \<and>
           listeners s' =
             (if entriesOf s wc st = []
              then (case wc of
                      WebContents w \<Rightarrow> (listeners s)(w := listeners s w @ [a])
                    | ANY_WINDOW \<Rightarrow> (\<lambda>w. listeners s w @ replicate (count_list (allWindows s) w) a))
              else listeners s) \<and>
           windowCreated s' =
             (if entriesOf s wc st = [] \<and> wc = ANY_WINDOW then windowCreated s @ [a]
              else windowCreated s)"
proof (cases "windowsWithShortcuts s wc")
  case None
  then show ?thesis using own parsed
    by (auto simp add: registerOne_def getProp_def groupOf_def entriesOf_def Let_def map_add_def
          installListener_fields installListener_listeners installListener_windowCreated
          split: target.split)
next
  case (Some b)
  show ?thesis
  proof (cases "map_of b st")
    case None
    then show ?thesis using own parsed Some
      by (auto simp add: registerOne_def getProp_def groupOf_def entriesOf_def Let_def map_add_def
            installListener_fields installListener_listeners installListener_windowCreated
          split: target.split)
  next
    case (Some a)
    then show ?thesis using parsed \<open>windowsWithShortcuts s wc = Some b\<close>
      by (auto simp add: registerOne_def getProp_def groupOf_def entriesOf_def Let_def map_add_def
            installListener_fields installListener_listeners installListener_windowCreated
          split: target.split)
  qed
qed

section \<open>Enabling, disabling and the registry query\<close>

lemma forEachState_Cons:
  "forEachState v ((n, a) # b) s =
     forEachState v b (s\<lparr>arrays := (arrays s)(a := setEnabled (v n) (arrays s a))\<rparr>)"
  by (simp add: forEachState_def)

lemma forEachState_Nil: "forEachState v [] s = s"
  by (simp add: forEachState_def)

lemma forEachState_fields:
  "windowsWithShortcuts (forEachState v b s) = windowsWithShortcuts s"
  "listeners (forEachState v b s) = listeners s"
  "nextArray (forEachState v b s) = nextArray s"
  by (induction b arbitrary: s; simp add: forEachState_Nil forEachState_Cons split_paired_all)+

lemma forEachState_untouched:
  "a \<notin> snd ` set b \<Longrightarrow> arrays (forEachState v b s) a = arrays s a"
  by (induction b arbitrary: s) (auto simp add: forEachState_Nil forEachState_Cons)

lemma forEachState_distinct:
  "distinct (map snd b) \<Longrightarrow> (n, a) \<in> set b \<Longrightarrow>
   arrays (forEachState v b s) a = setEnabled (v n) (arrays s a)"
proof (induction b arbitrary: s)
  case Nil
  then show ?case by simp
next
  case (Cons p b)
  obtain n' a' where p: "p = (n', a')" by (cases p)
  show ?case
  proof (cases "(n, a) = (n', a')")
    case True
    with Cons.prems p have "a \<notin> snd ` set b" by auto
    with True p show ?thesis by (simp add: forEachState_Cons forEachState_untouched)
  next
    case False
    with Cons.prems p have mem: "(n, a) \<in> set b" and ne: "a \<noteq> a'" and d: "distinct (map snd b)"
      by (auto simp add: rev_image_eqI)
    show ?thesis using Cons.IH [OF d mem] ne p by (simp add: forEachState_Cons)
  qed
qed

lemma forEachState_eventStamps:
  "map eventStamp (elems (arrays (forEachState v b s) a)) = map eventStamp (elems (arrays s a))"
  by (induction b arbitrary: s) (auto simp add: forEachState_Nil forEachState_Cons setEnabled_def o_def)

lemma forEachState_const_keeps:
  "\<forall>sh\<in>set (elems (arrays s a)). enabled sh = c \<Longrightarrow>
   \<forall>sh\<in>set (elems (arrays (forEachState (\<lambda>currState. c) b s) a)). enabled sh = c"
proof (induction b arbitrary: s)
  case Nil
  then show ?case by (simp add: forEachState_Nil)
next
  case (Cons p b)
  obtain n' a' where p: "p = (n', a')" by (cases p)
  let ?s1 = "s\<lparr>arrays := (arrays s)(a' := setEnabled c (arrays s a'))\<rparr>"
  have "\<forall>sh\<in>set (elems (arrays ?s1 a)). enabled sh = c"
    using Cons.prems by (auto simp add: setEnabled_def)
  from Cons.IH [OF this] p show ?case by (simp add: forEachState_Cons)
qed

lemma forEachState_const:
  "(n, a) \<in> set b \<Longrightarrow>
   \<forall>sh\<in>set (elems (arrays (forEachState (\<lambda>currState. c) b s) a)). enabled sh = c"
proof (induction b arbitrary: s)
  case Nil
  then show ?case by simp
next
  case (Cons p b)
  obtain n' a' where p: "p = (n', a')" by (cases p)
  show ?case
  proof (cases "(n, a) = (n', a')")
    case True
    have "\<forall>sh\<in>set (elems (arrays (s\<lparr>arrays := (arrays s)(a := setEnabled c (arrays s a))\<rparr>) a)). enabled sh = c"
      by (simp add: setEnabled_def)
    from forEachState_const_keeps [OF this] True p show ?thesis
      by (simp add: forEachState_Cons)
  next
    case False
    with Cons.prems p have "(n, a) \<in> set b" by auto
    from Cons.IH [OF this] p show ?thesis by (simp add: forEachState_Cons)
  qed
qed

lemma no_enabled_no_callback:
  "\<forall>sh\<in>set (elems (arrays s a)). \<not> enabled sh \<Longrightarrow> fst (onBeforeInput eq run a i s) = []"
proof -
  assume "\<forall>sh\<in>set (elems (arrays s a)). \<not> enabled sh"
  then have "find (\<lambda>sh. enabled sh \<and> eq (eventStamp sh) (normalizeEvent i)) (elems (arrays s a)) = None"
    by (auto simp add: find_None_iff)
  then show ?thesis by (simp add: onBeforeInput_def scan_find)
qed

text \<open>
  Claim C6. In a bucket whose states have distinct arrays (every reachable bucket, see
  \<open>wellFormed\<close>), \<open>enableOnlyForState(win, st)\<close> leaves in every group \<open>n\<close> of the
  window's bucket the same entries in the same order with \<open>enabled = (st = n)\<close>: the
  entries of group \<open>st\<close> are all enabled and those of every other group all disabled.
  So the key handler of a group registered under another state name calls no callback
  afterwards, whatever the key event.
\<close>

theorem enableOnlyForState_sets_flags:
  "windowsWithShortcuts s (WebContents (webContents win)) = Some b \<Longrightarrow>
   distinct (map snd b) \<Longrightarrow> (n, a) \<in> set b \<Longrightarrow>
   elems (arrays (enableOnlyForState win st s) a) =
     map (\<lambda>sh. sh\<lparr>enabled := (st = n)\<rparr>) (elems (arrays s a)) \<and>
   (n \<noteq> st \<longrightarrow> fst (onBeforeInput eq run a i (enableOnlyForState win st s)) = [])"
proof -
  assume b: "windowsWithShortcuts s (WebContents (webContents win)) = Some b"
    and d: "distinct (map snd b)" and mem: "(n, a) \<in> set b"
  have e: "elems (arrays (enableOnlyForState win st s) a) =
     map (\<lambda>sh. sh\<lparr>enabled := (st = n)\<rparr>) (elems (arrays s a))"
    using b forEachState_distinct [OF d mem, of "\<lambda>currState. st = currState" s]
    by (simp add: enableOnlyForState_def setEnabled_def)
  have "n \<noteq> st \<Longrightarrow> fst (onBeforeInput eq run a i (enableOnlyForState win st s)) = []"
    by (rule no_enabled_no_callback) (auto simp add: e)
  with e show ?thesis by blast
qed

text \<open>
  Claim C10. \<open>isRegistered\<close> does not look at the \<open>enabled\<close> flags: when the group of
  (window, state) holds an entry whose event stamp equals the event of the accelerator,
  \<open>isRegistered\<close> returns true (the hypotheses say nothing about \<open>enabled\<close>). In
  particular after \<open>disableAll\<close> every entry of the group is disabled and the group's
  key handler calls no callback, and \<open>isRegistered\<close> still returns true.
\<close>

theorem isRegistered_ignores_enabled:
  "windowsWithShortcuts s (WebContents (webContents win)) = Some b \<Longrightarrow> map_of b st = Some a \<Longrightarrow>
   toKeyEvent accelerator = Inr d \<Longrightarrow>
   sh \<in> set (elems (arrays s a)) \<Longrightarrow> eq (eventStamp sh) d \<Longrightarrow>
   isRegistered eq toKeyEvent win st accelerator s = Inr True \<and>
   (\<forall>sh'\<in>set (elems (arrays (disableAll win s) a)). \<not> enabled sh') \<and>
   isRegistered eq toKeyEvent win st accelerator (disableAll win s) = Inr True \<and>
   fst (onBeforeInput eq run a i (disableAll win s)) = []"
proof -
  assume b: "windowsWithShortcuts s (WebContents (webContents win)) = Some b"
    and g: "map_of b st = Some a" and p: "toKeyEvent accelerator = Inr d"
    and sh: "sh \<in> set (elems (arrays s a))" and m: "eq (eventStamp sh) d"
  have d: "disableAll win s = forEachState (\<lambda>currState. False) b s"
    using b by (simp add: disableAll_def)
  have r1: "isRegistered eq toKeyEvent win st accelerator s = Inr True"
    using b g p sh m by (auto simp add: isRegistered_def getProp_own findShortcut_found)
  have off: "\<forall>sh'\<in>set (elems (arrays (disableAll win s) a)). \<not> enabled sh'"
    using forEachState_const [OF map_of_SomeD [OF g], of False s] d by simp
  have "eventStamp sh \<in> set (map eventStamp (elems (arrays (disableAll win s) a)))"
    using sh by (simp add: d forEachState_eventStamps)
  then obtain sh' where mem': "sh' \<in> set (elems (arrays (disableAll win s) a))"
    and same: "eventStamp sh' = eventStamp sh"
    by auto
  from m same have "eq (eventStamp sh') d"
    by (simp only:)
  with mem' have "\<exists>x\<in>set (elems (arrays (disableAll win s) a)). eq (eventStamp x) d"
    by blast
  moreover have "windowsWithShortcuts (disableAll win s) = windowsWithShortcuts s"
    by (simp add: d forEachState_fields)
  ultimately have r2: "isRegistered eq toKeyEvent win st accelerator (disableAll win s) = Inr True"
    using b g p by (simp add: isRegistered_def getProp_own findShortcut_found)
  from r1 off r2 no_enabled_no_callback [OF off] show ?thesis by blast
qed

section \<open>Registering and unregistering\<close>

lemma fold_dropListener_fields:
  "windowsWithShortcuts (fold (\<lambda>wc. dropListener wc h) ws s) = windowsWithShortcuts s"
  "arrays (fold (\<lambda>wc. dropListener wc h) ws s) = arrays s"
  "windowCreated (fold (\<lambda>wc. dropListener wc h) ws s) = windowCreated s"
  "nextArray (fold (\<lambda>wc. dropListener wc h) ws s) = nextArray s"
  by (induction ws arbitrary: s; simp add: dropListener_def)+

lemma runRemover_fields:
  "windowsWithShortcuts (runRemover r s) = windowsWithShortcuts s"
  "arrays (runRemover r s) = arrays s"
  "nextArray (runRemover r s) = nextArray s"
  by (cases r; simp add: dropListener_def fold_dropListener_fields Let_def)+

lemma register_appends:
  assumes "st \<notin> set objectPrototype" and "toKeyEvent accelerator = Inr d"
  shows "\<exists>s' a. register toKeyEvent win st (Single accelerator) cb s = Inr s' \<and>
           groupOf s' (targetOf win) st = Some a \<and>
           entriesOf s' (targetOf win) st =
             entriesOf s (targetOf win) st @ [\<lparr>eventStamp = d, callback = cb, enabled = True\<rparr>] \<and>
           (\<forall>a'. a' \<noteq> a \<longrightarrow> elems (arrays s' a') = elems (arrays s a'))"
proof -
  from registerOne_effect
         [where toKeyEvent = toKeyEvent and accelerator = accelerator and wc = "targetOf win"
            and cb = cb and s = s, OF assms]
  obtain s' a where r: "registerOne toKeyEvent (targetOf win) st accelerator cb s = Inr s'"
    and g: "groupOf s' (targetOf win) st = Some a"
    and e: "elems (arrays s' a) = entriesOf s (targetOf win) st @
               [\<lparr>eventStamp = d, callback = cb, enabled = True\<rparr>]"
    and o: "\<forall>a'. a' \<noteq> a \<longrightarrow> elems (arrays s' a') = elems (arrays s a')"
    by blast
  from g e have "entriesOf s' (targetOf win) st = entriesOf s (targetOf win) st @
               [\<lparr>eventStamp = d, callback = cb, enabled = True\<rparr>]"
    by (simp add: entriesOf_def)
  with r g o show ?thesis by (simp add: register_def)
qed

text \<open>
  Claim C8. The claim holds for every state name that the bucket does not inherit from
  \<open>Object.prototype\<close> and every accelerator the parser accepts (lemma
  \<open>register_appends\<close> above: the group's sequence afterwards is the sequence before
  followed by exactly one new entry with \<open>enabled = true\<close>, whatever the sequence held
  and whatever the flags of any entry; no other array changes). It fails for the
  inherited names: with a state name such as \<open>constructor\<close> or \<open>toString\<close> that is no
  own property of the bucket, a call of \<open>register\<close> with a single accelerator string
  always throws and appends nothing: the parser's exception when the parser rejects the
  accelerator, a TypeError for every accelerator it accepts.
\<close>

theorem register_inherited_state_throws:
  "st \<in> set objectPrototype \<Longrightarrow> groupOf s (targetOf win) st = None \<Longrightarrow>
   register toKeyEvent win st (Single accelerator) cb s =
     Inl (case toKeyEvent accelerator of Inl e \<Rightarrow> e | Inr d \<Rightarrow> TypeError)"
  by (auto simp add: register_def registerOne_def groupOf_def getProp_def Let_def
        split: option.splits sum.splits)

text \<open>C8 at a concrete input: \<open>register(win, 'constructor', 'Ctrl+A', cb)\<close>.\<close>

theorem register_inherited_state_throws_witness:
  "''constructor'' \<in> set objectPrototype \<and>
   register parseKeyOnly (Some (liveWindow 1)) ''constructor'' (Single ''Ctrl+A'') 7 (initial [1]) = Inl TypeError"
proof -
  have h: "''constructor'' \<in> set objectPrototype" by (simp add: objectPrototype_def)
  have g: "groupOf (initial [1]) (targetOf (Some (liveWindow 1))) ''constructor'' = None"
    by (simp add: groupOf_def initial_def)
  from register_inherited_state_throws
         [where toKeyEvent = parseKeyOnly and accelerator = "''Ctrl+A''" and cb = 7, OF h g] h
  show ?thesis
    by (simp add: parseKeyOnly_def)
qed

text \<open>
  Claim C4, as amended. For a state name that is not inherited from
  \<open>Object.prototype\<close>: when the parser throws for the accelerator, \<open>register\<close> throws
  that exception. When the parser accepts the accelerator, a call of \<open>register\<close> with
  that single accelerator string returns, and it adds a key handler exactly when the
  group of (window, state) had no entries before the call, whatever the other states of
  the bucket hold. The handler closes over that group's array \<open>a\<close>. With a window it is
  added once to the listeners of the window's webContents; without a window it is added
  to every open window and to the \<open>browser-window-created\<close> listeners. When the group
  had entries, no listener changes.
\<close>

theorem register_installs_listener_per_group:
  "st \<notin> set objectPrototype \<Longrightarrow>
   (case toKeyEvent accelerator of
      Inl e \<Rightarrow> register toKeyEvent win st (Single accelerator) cb s = Inl e
    | Inr d \<Rightarrow>
        (\<exists>s' a. register toKeyEvent win st (Single accelerator) cb s = Inr s' \<and>
           groupOf s' (targetOf win) st = Some a \<and>
           listeners s' =
             (if entriesOf s (targetOf win) st = []
              then (case win of
                      Some w \<Rightarrow> (listeners s)(webContents w := listeners s (webContents w) @ [a])
                    | None \<Rightarrow> (\<lambda>w. listeners s w @ replicate (count_list (allWindows s) w) a))
              else listeners s) \<and>
           windowCreated s' =
             (if entriesOf s (targetOf win) st = [] \<and> win = None then windowCreated s @ [a]
              else windowCreated s)))"
proof -
  assume own: "st \<notin> set objectPrototype"
  show ?thesis
  proof (cases "toKeyEvent accelerator")
    case (Inl e)
    with registerOne_throws
           [where toKeyEvent = toKeyEvent and accelerator = accelerator and wc = "targetOf win"
              and cb = cb and s = s, OF own Inl]
    show ?thesis
      by (simp add: register_def)
  next
    case (Inr d)
    from registerOne_effect
           [where toKeyEvent = toKeyEvent and accelerator = accelerator and wc = "targetOf win"
              and cb = cb and s = s, OF own Inr] Inr
    show ?thesis
      by (cases win) (auto simp add: register_def targetOf_def)
  qed
qed

text \<open>
  Claim C3. The first half of the claim holds: removing the last entry of a group
  deletes the group from the bucket. The second half fails: when that group was the
  last one of the bucket, \<open>unregister\<close> returns with the bucket still in the WeakMap,
  now without any state group, because the comparison of line 340 is never true.
\<close>

theorem unregister_last_entry_keeps_bucket:
  "windowsWithShortcuts s (WebContents (webContents win)) = Some [(st, a)] \<Longrightarrow> \<not> isDestroyed win \<Longrightarrow>
   elems (arrays s a) = [sh] \<Longrightarrow> toKeyEvent accelerator = Inr d \<Longrightarrow> eq (eventStamp sh) d \<Longrightarrow>
   removeListener (arrays s a) = Some r \<Longrightarrow>
   \<exists>s'. unregister eq toKeyEvent (Some win) st (Single accelerator) s = Inr s' \<and>
        windowsWithShortcuts s' (WebContents (webContents win)) = Some []"
  by (simp add: unregister_def unregisterOne_def getProp_def findShortcut_def splice1_def
        keysStrictEqualsZero_def runRemover_fields Let_def)

text \<open>
  Claim C2. For a window that is not destroyed and has no bucket in the WeakMap,
  \<open>unregister\<close> with a single accelerator string does not return: lines 313-315 only
  write the diagnostic "Early return ..." and line 317 throws a TypeError.
\<close>

theorem unregister_without_bucket_throws:
  "windowsWithShortcuts s (WebContents (webContents win)) = None \<Longrightarrow> \<not> isDestroyed win \<Longrightarrow>
   unregister eq toKeyEvent (Some win) st (Single accelerator) s = Inl TypeError"
  by (simp add: unregister_def unregisterOne_def)

text \<open>C2 at a concrete input: a fresh application with one window.\<close>

theorem unregister_without_bucket_throws_witness:
  "windowsWithShortcuts (initial [1]) (WebContents (webContents (liveWindow 1))) = None \<and>
   \<not> isDestroyed (liveWindow 1) \<and>
   unregister sameKey parseKeyOnly (Some (liveWindow 1)) ''normal'' (Single ''Ctrl+A'') (initial [1]) =
     Inl TypeError"
proof -
  have h1: "windowsWithShortcuts (initial [1]) (WebContents (webContents (liveWindow 1))) = None"
    by (simp add: initial_def)
  have h2: "\<not> isDestroyed (liveWindow 1)"
    by (simp add: liveWindow_def)
  from unregister_without_bucket_throws [OF h1 h2] h1 h2 show ?thesis by simp
qed

text \<open>
  C3 at a concrete input: after \<open>register(win, 'normal', 'Ctrl+A', cb)\<close> and
  \<open>unregister(win, 'normal', 'Ctrl+A')\<close> the window's bucket is still there, empty.
\<close>

theorem unregister_last_entry_keeps_bucket_witness:
  "\<exists>s'. unregister sameKey parseKeyOnly (Some (liveWindow 1)) ''normal'' (Single ''Ctrl+A'') oneShortcut = Inr s' \<and>
        windowsWithShortcuts s' (WebContents 1) = Some [] \<and>
        entriesOf oneShortcut (WebContents 1) ''normal'' =
          [\<lparr>eventStamp = keyOnly ''Ctrl+A'', callback = 7, enabled = True\<rparr>]"
proof -
  have h1: "windowsWithShortcuts oneShortcut (WebContents (webContents (liveWindow 1))) = Some [(''normal'', 0)]"
    by (simp add: oneShortcut_def liveWindow_def)
  have h2: "\<not> isDestroyed (liveWindow 1)"
    by (simp add: liveWindow_def)
  have h3: "elems (arrays oneShortcut 0) = [\<lparr>eventStamp = keyOnly ''Ctrl+A'', callback = 7, enabled = True\<rparr>]"
    by (simp add: oneShortcut_def)
  have hp: "parseKeyOnly ''Ctrl+A'' = Inr (keyOnly ''Ctrl+A'')"
    by (simp add: parseKeyOnly_def)
  have h4: "sameKey (eventStamp \<lparr>eventStamp = keyOnly ''Ctrl+A'', callback = 7, enabled = True\<rparr>) (keyOnly ''Ctrl+A'')"
    by (simp add: sameKey_def)
  have h5: "removeListener (arrays oneShortcut 0) = Some (RemoveFromWindow 1 0)"
    by (simp add: oneShortcut_def)
  have e: "entriesOf oneShortcut (WebContents 1) ''normal'' =
          [\<lparr>eventStamp = keyOnly ''Ctrl+A'', callback = 7, enabled = True\<rparr>]"
    by (simp add: entriesOf_def groupOf_def oneShortcut_def)
  from unregister_last_entry_keeps_bucket
         [where eq = sameKey and toKeyEvent = parseKeyOnly and accelerator = "''Ctrl+A''",
          OF h1 h2 h3 hp h4 h5] e
  show ?thesis
    by (simp add: liveWindow_def)
qed

text \<open>C4 as amended, at the registration of a second state on \<open>oneShortcut\<close>.\<close>

theorem register_installs_listener_per_group_witness:
  "''edit'' \<notin> set objectPrototype \<and>
   entriesOf oneShortcut (WebContents 1) ''edit'' = [] \<and>
   listeners twoStates 1 = listeners oneShortcut 1 @ [1] \<and>
   register parseKeyOnly (Some (liveWindow 1)) ''edit'' (Single ''Ctrl+Foo'') 8 oneShortcut =
     Inl (Error ''Unvalid keycode'')"
proof -
  have h: "''edit'' \<notin> set objectPrototype" by (simp add: objectPrototype_def)
  have e: "entriesOf oneShortcut (targetOf (Some (liveWindow 1))) ''edit'' = []"
    by (simp add: entriesOf_def groupOf_def oneShortcut_def targetOf_def liveWindow_def)
  have p: "parseKeyOnly ''Ctrl+B'' = Inr (keyOnly ''Ctrl+B'')"
    by (simp add: parseKeyOnly_def)
  have q: "parseKeyOnly ''Ctrl+Foo'' = Inl (Error ''Unvalid keycode'')"
    by (simp add: parseKeyOnly_def)
  from register_installs_listener_per_group
         [where toKeyEvent = parseKeyOnly and accelerator = "''Ctrl+B''" and win = "Some (liveWindow 1)"
            and cb = 8 and s = oneShortcut, OF h]
  obtain s' a where r: "register parseKeyOnly (Some (liveWindow 1)) ''edit'' (Single ''Ctrl+B'') 8 oneShortcut = Inr s'"
    and g: "groupOf s' (targetOf (Some (liveWindow 1))) ''edit'' = Some a"
    and l: "listeners s' = (listeners oneShortcut)
              (webContents (liveWindow 1) := listeners oneShortcut (webContents (liveWindow 1)) @ [a])"
    using e p by auto
  from r have s': "s' = twoStates" by (simp only: register_second sum.inject)
  from g have "a = 1"
    by (simp add: s' groupOf_def twoStates_def targetOf_def liveWindow_def)
  with l have "listeners twoStates 1 = listeners oneShortcut 1 @ [1]"
    by (simp add: s' liveWindow_def)
  moreover have "entriesOf oneShortcut (WebContents 1) ''edit'' = []"
    using e by (simp add: targetOf_def liveWindow_def)
  moreover have "register parseKeyOnly (Some (liveWindow 1)) ''edit'' (Single ''Ctrl+Foo'') 8 oneShortcut =
     Inl (Error ''Unvalid keycode'')"
    using register_installs_listener_per_group
            [where toKeyEvent = parseKeyOnly and accelerator = "''Ctrl+Foo''"
               and win = "Some (liveWindow 1)" and cb = 8 and s = oneShortcut, OF h] q
    by simp
  ultimately show ?thesis using h by simp
qed

text \<open>
  Claim C4 as stated fails: the bucket of window 1 has an entry under \<open>normal\<close> and one
  listener; registering under the new state name \<open>edit\<close> installs a second listener.
\<close>

theorem second_state_adds_listener:
  "entriesOf oneShortcut (WebContents 1) ''normal'' \<noteq> [] \<and>
   listeners oneShortcut 1 = [0] \<and>
   register parseKeyOnly (Some (liveWindow 1)) ''edit'' (Single ''Ctrl+B'') 8 oneShortcut = Inr twoStates \<and>
   listeners twoStates 1 = [0, 1]"
proof -
  have a: "entriesOf oneShortcut (WebContents 1) ''normal'' \<noteq> []"
    by (simp add: entriesOf_def groupOf_def oneShortcut_def)
  have b: "listeners oneShortcut 1 = [0]"
    by (simp add: oneShortcut_def)
  have c: "listeners twoStates 1 = [0, 1]"
    by (simp add: twoStates_def)
  from a b register_second c show ?thesis by blast
qed

text \<open>
  Claim C9. For a window without a bucket, \<open>disableAll\<close>, \<open>enableAll\<close> and
  \<open>enableOnlyForState\<close> return normally (none of them has a path that throws) and
  leave the state exactly as it was.
\<close>

theorem no_bucket_enable_disable_noop:
  "windowsWithShortcuts s (WebContents (webContents win)) = None \<Longrightarrow>
   disableAll win s = s \<and> enableAll win s = s \<and> enableOnlyForState win st s = s"
  by (simp add: disableAll_def enableAll_def enableOnlyForState_def)

text \<open>C9 at a concrete input.\<close>

theorem no_bucket_enable_disable_noop_witness:
  "windowsWithShortcuts (initial [1]) (WebContents (webContents (liveWindow 1))) = None \<and>
   disableAll (liveWindow 1) (initial [1]) = initial [1] \<and>
   enableAll (liveWindow 1) (initial [1]) = initial [1] \<and>
   enableOnlyForState (liveWindow 1) ''edit'' (initial [1]) = initial [1]"
proof -
  have h: "windowsWithShortcuts (initial [1]) (WebContents (webContents (liveWindow 1))) = None"
    by (simp add: initial_def)
  from no_bucket_enable_disable_noop [OF h] h show ?thesis by simp
qed

text \<open>
  Claim C7, as amended. \<open>isRegistered\<close> throws "No shortcuts registered for this
  window" when the window has no bucket; when the window has a bucket but no group
  under the queried state it throws too ("No shortcuts registered for this state"; for
  a state name the bucket inherits, the parser's exception or a TypeError). Otherwise
  the parser is called: when it throws for the accelerator, \<open>isRegistered\<close> throws that
  exception, and when it returns an event, \<open>isRegistered\<close> returns the boolean that tells
  whether some entry of the (window, state) group has an event stamp equal to it.
\<close>

theorem isRegistered_error_or_boolean:
  "(windowsWithShortcuts s (WebContents (webContents win)) = None \<longrightarrow>
      isRegistered eq toKeyEvent win st accelerator s =
        Inl (Error ''No shortcuts registered for this window'')) \<and>
   (\<forall>b. windowsWithShortcuts s (WebContents (webContents win)) = Some b \<and> map_of b st = None \<longrightarrow>
      isRegistered eq toKeyEvent win st accelerator s =
        Inl (if st \<in> set objectPrototype
             then (case toKeyEvent accelerator of Inl e \<Rightarrow> e | Inr d \<Rightarrow> TypeError)
             else Error ''No shortcuts registered for this state'')) \<and>
   (\<forall>b a. windowsWithShortcuts s (WebContents (webContents win)) = Some b \<and> map_of b st = Some a \<longrightarrow>
      isRegistered eq toKeyEvent win st accelerator s =
        (case toKeyEvent accelerator of
           Inl e \<Rightarrow> Inl e
         | Inr d \<Rightarrow> Inr (\<exists>sh\<in>set (elems (arrays s a)). eq (eventStamp sh) d)))"
  by (simp add: isRegistered_def getProp_own getProp_missing findShortcut_found split: sum.split)

text \<open>C7 as amended, at concrete inputs, one for each case.\<close>

theorem isRegistered_error_or_boolean_witness:
  "isRegistered sameKey parseKeyOnly (liveWindow 1) ''normal'' ''Ctrl+A'' (initial [1]) =
     Inl (Error ''No shortcuts registered for this window'') \<and>
   isRegistered sameKey parseKeyOnly (liveWindow 1) ''edit'' ''Ctrl+A'' oneShortcut =
     Inl (Error ''No shortcuts registered for this state'') \<and>
   isRegistered sameKey parseKeyOnly (liveWindow 1) ''normal'' ''Ctrl+A'' oneShortcut = Inr True \<and>
   isRegistered sameKey parseKeyOnly (liveWindow 1) ''normal'' ''Ctrl+B'' oneShortcut = Inr False \<and>
   isRegistered sameKey parseKeyOnly (liveWindow 1) ''normal'' ''Ctrl+Foo'' oneShortcut =
     Inl (Error ''Unvalid keycode'')"
proof -
  have h1: "windowsWithShortcuts (initial [1]) (WebContents (webContents (liveWindow 1))) = None"
    by (simp add: initial_def)
  have h2: "windowsWithShortcuts oneShortcut (WebContents (webContents (liveWindow 1))) = Some [(''normal'', 0)]"
    by (simp add: oneShortcut_def liveWindow_def)
  have m1: "map_of [(''normal'', 0::nat)] ''edit'' = None" by simp
  have m2: "map_of [(''normal'', 0::nat)] ''normal'' = Some 0" by simp
  have e: "elems (arrays oneShortcut 0) = [\<lparr>eventStamp = keyOnly ''Ctrl+A'', callback = 7, enabled = True\<rparr>]"
    by (simp add: oneShortcut_def)
  have c1: "isRegistered sameKey parseKeyOnly (liveWindow 1) ''normal'' ''Ctrl+A'' (initial [1]) =
     Inl (Error ''No shortcuts registered for this window'')"
    using isRegistered_error_or_boolean [of "initial [1]" "liveWindow 1" sameKey parseKeyOnly "''normal''" "''Ctrl+A''"] h1
    by blast
  have "isRegistered sameKey parseKeyOnly (liveWindow 1) ''edit'' ''Ctrl+A'' oneShortcut =
     Inl (if ''edit'' \<in> set objectPrototype
          then (case parseKeyOnly ''Ctrl+A'' of Inl e \<Rightarrow> e | Inr d \<Rightarrow> TypeError)
          else Error ''No shortcuts registered for this state'')"
    using isRegistered_error_or_boolean [of oneShortcut "liveWindow 1" sameKey parseKeyOnly "''edit''" "''Ctrl+A''"] h2 m1
    by blast
  then have c2: "isRegistered sameKey parseKeyOnly (liveWindow 1) ''edit'' ''Ctrl+A'' oneShortcut =
     Inl (Error ''No shortcuts registered for this state'')"
    by (simp add: objectPrototype_def)
  have "isRegistered sameKey parseKeyOnly (liveWindow 1) ''normal'' ''Ctrl+A'' oneShortcut =
     (case parseKeyOnly ''Ctrl+A'' of
        Inl e \<Rightarrow> Inl e
      | Inr d \<Rightarrow> Inr (\<exists>sh\<in>set (elems (arrays oneShortcut 0)). sameKey (eventStamp sh) d))"
    using isRegistered_error_or_boolean [of oneShortcut "liveWindow 1" sameKey parseKeyOnly "''normal''" "''Ctrl+A''"] h2 m2
    by blast
  then have c3: "isRegistered sameKey parseKeyOnly (liveWindow 1) ''normal'' ''Ctrl+A'' oneShortcut = Inr True"
    by (simp add: e sameKey_def parseKeyOnly_def)
  have "isRegistered sameKey parseKeyOnly (liveWindow 1) ''normal'' ''Ctrl+B'' oneShortcut =
     (case parseKeyOnly ''Ctrl+B'' of
        Inl e \<Rightarrow> Inl e
      | Inr d \<Rightarrow> Inr (\<exists>sh\<in>set (elems (arrays oneShortcut 0)). sameKey (eventStamp sh) d))"
    using isRegistered_error_or_boolean [of oneShortcut "liveWindow 1" sameKey parseKeyOnly "''normal''" "''Ctrl+B''"] h2 m2
    by blast
  then have c4: "isRegistered sameKey parseKeyOnly (liveWindow 1) ''normal'' ''Ctrl+B'' oneShortcut = Inr False"
    by (simp add: e sameKey_def keyOnly_def parseKeyOnly_def)
  have "isRegistered sameKey parseKeyOnly (liveWindow 1) ''normal'' ''Ctrl+Foo'' oneShortcut =
     (case parseKeyOnly ''Ctrl+Foo'' of
        Inl e \<Rightarrow> Inl e
      | Inr d \<Rightarrow> Inr (\<exists>sh\<in>set (elems (arrays oneShortcut 0)). sameKey (eventStamp sh) d))"
    using isRegistered_error_or_boolean [of oneShortcut "liveWindow 1" sameKey parseKeyOnly "''normal''" "''Ctrl+Foo''"] h2 m2
    by blast
  then have c5: "isRegistered sameKey parseKeyOnly (liveWindow 1) ''normal'' ''Ctrl+Foo'' oneShortcut =
     Inl (Error ''Unvalid keycode'')"
    by (simp add: parseKeyOnly_def)
  from c1 c2 c3 c4 c5 show ?thesis by blast
qed

text \<open>
  Claim C7 as stated fails: window 1 has an entry under \<open>normal\<close>, so neither of the
  two error cases applies, and for the accelerator \<open>Ctrl+Foo\<close>, which the parser
  rejects, \<open>isRegistered\<close> does not return a boolean but throws the parser's exception.
\<close>

theorem isRegistered_parser_exception:
  "entriesOf oneShortcut (WebContents 1) ''normal'' =
     [\<lparr>eventStamp = keyOnly ''Ctrl+A'', callback = 7, enabled = True\<rparr>] \<and>
   parseKeyOnly ''Ctrl+Foo'' = Inl (Error ''Unvalid keycode'') \<and>
   isRegistered sameKey parseKeyOnly (liveWindow 1) ''normal'' ''Ctrl+Foo'' oneShortcut =
     Inl (Error ''Unvalid keycode'')"
  by (simp add: isRegistered_def getProp_def entriesOf_def groupOf_def oneShortcut_def liveWindow_def
        parseKeyOnly_def)

text \<open>
  C6 at a concrete input: after \<open>enableOnlyForState(win, 'edit')\<close> the key
  \<open>Ctrl+A\<close>, registered under \<open>normal\<close>, calls nothing; before, it called callback 7.
\<close>

theorem enableOnlyForState_sets_flags_witness:
  "elems (arrays (enableOnlyForState (liveWindow 1) ''edit'' twoStates) 0) =
     [\<lparr>eventStamp = keyOnly ''Ctrl+A'', callback = 7, enabled = False\<rparr>] \<and>
   elems (arrays (enableOnlyForState (liveWindow 1) ''edit'' twoStates) 1) =
     [\<lparr>eventStamp = keyOnly ''Ctrl+B'', callback = 8, enabled = True\<rparr>] \<and>
   fst (onBeforeInput sameKey (\<lambda>cb s. Inr s) 0 (keyDown ''Ctrl+A'')
          (enableOnlyForState (liveWindow 1) ''edit'' twoStates)) = [] \<and>
   fst (onBeforeInput sameKey (\<lambda>cb s. Inr s) 0 (keyDown ''Ctrl+A'') twoStates) = [7]"
proof -
  have h1: "windowsWithShortcuts twoStates (WebContents (webContents (liveWindow 1))) =
              Some [(''normal'', 0), (''edit'', 1)]"
    by (simp add: twoStates_def liveWindow_def)
  have h2: "distinct (map snd [(''normal'', 0::nat), (''edit'', 1)])" by simp
  have m0: "(''normal'', 0) \<in> set [(''normal'', 0::nat), (''edit'', 1)]" by simp
  have m1: "(''edit'', 1) \<in> set [(''normal'', 0::nat), (''edit'', 1)]" by simp
  have before: "fst (onBeforeInput sameKey (\<lambda>cb s. Inr s) 0 (keyDown ''Ctrl+A'') twoStates) = [7]"
    by (simp add: onBeforeInput_def scan_find keyDown_def normalizeEvent_def twoStates_def
          sameKey_def keyOnly_def)
  from enableOnlyForState_sets_flags [OF h1 h2 m0, of "''edit''" sameKey "\<lambda>cb s. Inr s" "keyDown ''Ctrl+A''"]
       enableOnlyForState_sets_flags [OF h1 h2 m1, of "''edit''" sameKey "\<lambda>cb s. Inr s" "keyDown ''Ctrl+A''"]
       before
  show ?thesis by (simp add: twoStates_def)
qed

text \<open>C10 at a concrete input.\<close>

theorem isRegistered_ignores_enabled_witness:
  "entriesOf (disableAll (liveWindow 1) oneShortcut) (WebContents 1) ''normal'' =
     [\<lparr>eventStamp = keyOnly ''Ctrl+A'', callback = 7, enabled = False\<rparr>] \<and>
   isRegistered sameKey parseKeyOnly (liveWindow 1) ''normal'' ''Ctrl+A'' (disableAll (liveWindow 1) oneShortcut) =
     Inr True \<and>
   fst (onBeforeInput sameKey (\<lambda>cb s. Inr s) 0 (keyDown ''Ctrl+A'')
          (disableAll (liveWindow 1) oneShortcut)) = []"
proof -
  have h1: "windowsWithShortcuts oneShortcut (WebContents (webContents (liveWindow 1))) = Some [(''normal'', 0)]"
    by (simp add: oneShortcut_def liveWindow_def)
  have h2: "map_of [(''normal'', 0::nat)] ''normal'' = Some 0" by simp
  have h3: "\<lparr>eventStamp = keyOnly ''Ctrl+A'', callback = 7, enabled = True\<rparr> \<in> set (elems (arrays oneShortcut 0))"
    by (simp add: oneShortcut_def)
  have hp: "parseKeyOnly ''Ctrl+A'' = Inr (keyOnly ''Ctrl+A'')"
    by (simp add: parseKeyOnly_def)
  have h4: "sameKey (eventStamp \<lparr>eventStamp = keyOnly ''Ctrl+A'', callback = 7, enabled = True\<rparr>) (keyOnly ''Ctrl+A'')"
    by (simp add: sameKey_def)
  have e: "entriesOf (disableAll (liveWindow 1) oneShortcut) (WebContents 1) ''normal'' =
             [\<lparr>eventStamp = keyOnly ''Ctrl+A'', callback = 7, enabled = False\<rparr>]"
    by (simp add: entriesOf_def groupOf_def disableAll_def forEachState_def oneShortcut_def liveWindow_def
          setEnabled_def)
  from isRegistered_ignores_enabled
         [where eq = sameKey and toKeyEvent = parseKeyOnly and accelerator = "''Ctrl+A''"
            and run = "\<lambda>cb s. Inr s" and i = "keyDown ''Ctrl+A''", OF h1 h2 hp h3 h4] e
  show ?thesis by simp
qed

section \<open>Well-formedness is an invariant\<close>

lemma wellFormed_initial: "wellFormed (initial ws)"
  by (simp add: wellFormed_def initial_def)

lemma wellFormed_registerOne:
  assumes wf: "wellFormed s" and r: "registerOne toKeyEvent wc st accelerator cb s = Inr s'"
  shows "wellFormed s'"
proof (cases "windowsWithShortcuts s wc")
  case None
  with r have own: "st \<notin> set objectPrototype"
    by (auto simp add: registerOne_def getProp_def Let_def split: if_splits sum.splits)
  with None r have
    "windowsWithShortcuts s' = (windowsWithShortcuts s)(wc \<mapsto> [(st, nextArray s)])"
    "nextArray s' = Suc (nextArray s)"
    by (auto simp add: registerOne_def getProp_def Let_def installListener_fields split: sum.splits)
  with wf show ?thesis
    by (auto simp add: wellFormed_def less_Suc_eq)
next
  case (Some b)
  show ?thesis
  proof (cases "map_of b st")
    case None
    with r Some have own: "st \<notin> set objectPrototype"
      by (auto simp add: registerOne_def getProp_def Let_def split: if_splits sum.splits)
    with None Some r have w:
      "windowsWithShortcuts s' = (windowsWithShortcuts s)(wc \<mapsto> b @ [(st, nextArray s)])"
      and n: "nextArray s' = Suc (nextArray s)"
      by (auto simp add: registerOne_def getProp_def Let_def installListener_fields split: sum.splits)
    from None have fresh: "st \<notin> fst ` set b"
      by (simp add: map_of_eq_None_iff)
    from wf Some have old: "distinct (map fst b)" "distinct (map snd b)" "\<forall>a\<in>set (map snd b). a < nextArray s"
      by (auto simp add: wellFormed_def)
    then have "nextArray s \<notin> snd ` set b" by auto
    with old fresh have "distinct (map fst (b @ [(st, nextArray s)]))"
      "distinct (map snd (b @ [(st, nextArray s)]))"
      "\<forall>a\<in>set (map snd (b @ [(st, nextArray s)])). a < Suc (nextArray s)"
      by (auto simp add: less_Suc_eq)
    with wf w n show ?thesis
      by (auto simp add: wellFormed_def less_Suc_eq)
  next
    case (Some a)
    with r \<open>windowsWithShortcuts s wc = Some b\<close> have
      "windowsWithShortcuts s' = windowsWithShortcuts s" "nextArray s' = nextArray s"
      by (auto simp add: registerOne_def getProp_def Let_def installListener_fields split: sum.splits)
    with wf show ?thesis by (simp add: wellFormed_def)
  qed
qed

lemma wellFormed_forEachString:
  assumes step: "\<And>x s s'. wellFormed s \<Longrightarrow> f x s = Inr s' \<Longrightarrow> wellFormed s'"
  shows "wellFormed s \<Longrightarrow> forEachString f xs s = Inr s' \<Longrightarrow> wellFormed s'"
proof (induction xs arbitrary: s)
  case Nil
  then show ?case by simp
next
  case (Cons x xs)
  show ?case
  proof (cases x)
    case (Str y)
    with Cons.prems obtain s1 where "f y s = Inr s1" "forEachString f xs s1 = Inr s'"
      by (auto split: sum.splits)
    with Cons.IH step Cons.prems(1) show ?thesis by blast
  next
    case NotString
    with Cons show ?thesis by simp
  qed
qed

lemma wellFormed_register:
  "wellFormed s \<Longrightarrow> register toKeyEvent win st accelerator cb s = Inr s' \<Longrightarrow> wellFormed s'"
proof (cases accelerator)
  case (Single x)
  assume "wellFormed s" "register toKeyEvent win st accelerator cb s = Inr s'"
  with Single show ?thesis by (auto simp add: register_def intro: wellFormed_registerOne)
next
  case (Many xs)
  assume wf: "wellFormed s" and r: "register toKeyEvent win st accelerator cb s = Inr s'"
  show ?thesis
  proof (cases win)
    case None
    with Many r have "forEachString (\<lambda>x s. Inl TypeError) xs s = Inr s'"
      by (simp add: register_def)
    with wf show ?thesis by (rule wellFormed_forEachString [rotated]) simp
  next
    case (Some w)
    with Many r have "forEachString (\<lambda>x. registerOne toKeyEvent (WebContents (webContents w)) st x cb) xs s = Inr s'"
      by (simp add: register_def)
    with wf show ?thesis by (rule wellFormed_forEachString [rotated]) (rule wellFormed_registerOne)
  qed
qed

lemma unregisterOne_bucket:
  assumes r: "unregisterOne eq toKeyEvent wc st accelerator s = Inr s'"
  shows "nextArray s' = nextArray s \<and>
         (\<exists>b. windowsWithShortcuts s wc = Some b \<and>
              (windowsWithShortcuts s' = windowsWithShortcuts s \<or>
               windowsWithShortcuts s' = (windowsWithShortcuts s)(wc \<mapsto> filter (\<lambda>p. fst p \<noteq> st) b)))"
  using r
  by (auto simp add: unregisterOne_def keysStrictEqualsZero_def runRemover_fields Let_def
        split: option.splits property.splits if_splits sum.splits)

lemma wellFormed_unregisterOne:
  assumes wf: "wellFormed s" and r: "unregisterOne eq toKeyEvent wc st accelerator s = Inr s'"
  shows "wellFormed s'"
proof -
  from unregisterOne_bucket [OF r] obtain b where n: "nextArray s' = nextArray s"
    and b: "windowsWithShortcuts s wc = Some b"
    and w: "windowsWithShortcuts s' = windowsWithShortcuts s \<or>
            windowsWithShortcuts s' = (windowsWithShortcuts s)(wc \<mapsto> filter (\<lambda>p. fst p \<noteq> st) b)"
    by blast
  from wf b have "distinct (map fst b)" "distinct (map snd b)" "\<forall>a\<in>set (map snd b). a < nextArray s"
    by (auto simp add: wellFormed_def)
  then have "distinct (map fst (filter (\<lambda>p. fst p \<noteq> st) b))"
    "distinct (map snd (filter (\<lambda>p. fst p \<noteq> st) b))"
    "\<forall>a\<in>set (map snd (filter (\<lambda>p. fst p \<noteq> st) b)). a < nextArray s"
    by (auto simp add: distinct_map_filter)
  note kept = this
  show ?thesis
    unfolding wellFormed_def
  proof (intro allI impI)
    fix k c
    assume c: "windowsWithShortcuts s' k = Some c"
    with w have "c = filter (\<lambda>p. fst p \<noteq> st) b \<or> windowsWithShortcuts s k = Some c"
      by (auto split: if_splits)
    then show "distinct (map fst c) \<and> distinct (map snd c) \<and> (\<forall>a\<in>set (map snd c). a < nextArray s')"
    proof
      assume "c = filter (\<lambda>p. fst p \<noteq> st) b"
      with kept n show ?thesis by simp
    next
      assume "windowsWithShortcuts s k = Some c"
      with wf n show ?thesis by (simp add: wellFormed_def)
    qed
  qed
qed

lemma wellFormed_unregister:
  "wellFormed s \<Longrightarrow> unregister eq toKeyEvent win st accelerator s = Inr s' \<Longrightarrow> wellFormed s'"
proof -
  assume wf: "wellFormed s" and r: "unregister eq toKeyEvent win st accelerator s = Inr s'"
  show ?thesis
  proof (cases win)
    case None
    show ?thesis
    proof (cases accelerator)
      case (Single x)
      with None r wf show ?thesis by (auto simp add: unregister_def intro: wellFormed_unregisterOne)
    next
      case (Many xs)
      with None r have "forEachString (\<lambda>x s. Inl TypeError) xs s = Inr s'"
        by (simp add: unregister_def)
      with wf show ?thesis by (rule wellFormed_forEachString [rotated]) simp
    qed
  next
    case (Some w)
    show ?thesis
    proof (cases "isDestroyed w")
      case True
      with Some r wf show ?thesis by (simp add: unregister_def)
    next
      case False
      show ?thesis
      proof (cases accelerator)
        case (Single x)
        with Some False r wf show ?thesis by (auto simp add: unregister_def intro: wellFormed_unregisterOne)
      next
        case (Many xs)
        with Some False r
        have "forEachString (unregisterOne eq toKeyEvent (WebContents (webContents w)) st) xs s = Inr s'"
          by (simp add: unregister_def)
        with wf show ?thesis by (rule wellFormed_forEachString [rotated]) (rule wellFormed_unregisterOne)
      qed
    qed
  qed
qed

lemma wellFormed_enable_disable:
  "wellFormed s \<Longrightarrow> wellFormed (disableAll win s)"
  "wellFormed s \<Longrightarrow> wellFormed (enableAll win s)"
  "wellFormed s \<Longrightarrow> wellFormed (enableOnlyForState win st s)"
  by (auto simp add: wellFormed_def disableAll_def enableAll_def enableOnlyForState_def
        forEachState_fields split: option.splits)

lemma wellFormed_distinct:
  "wellFormed s \<Longrightarrow> windowsWithShortcuts s wc = Some b \<Longrightarrow> distinct (map snd b)"
  by (simp add: wellFormed_def)

lemma unregisterOne_keeps_bucket:
  "unregisterOne eq toKeyEvent wc st accelerator s = Inr s' \<Longrightarrow>
   (windowsWithShortcuts s' k = None) = (windowsWithShortcuts s k = None)"
  by (drule unregisterOne_bucket) (auto split: if_splits)

section \<open>Unregistering from inside a callback\<close>

lemma register_sibling:
  "register parseKeyOnly (Some (liveWindow 1)) ''normal'' (Single ''Ctrl+B'') 8 oneShortcut = Inr siblings"
  by (simp add: register_def registerOne_def siblings_def oneShortcut_def liveWindow_def getProp_def targetOf_def
      Let_def parseKeyOnly_def)

lemma self_unregistering_callback:
  "onBeforeInput sameKey removesItself 0 (keyDown ''Ctrl+A'') siblings = ([7], Inr onlySibling) \<and>
   onBeforeInput sameKey removesItself 0 (keyDown ''Ctrl+B'') onlySibling = ([8], Inr onlySibling)"
  by (simp add: onBeforeInput_def scan_find keyDown_def normalizeEvent_def siblings_def onlySibling_def
        oneShortcut_def sameKey_def keyOnly_def removesItself_def unregister_def unregisterOne_def
        liveWindow_def getProp_def findShortcut_def splice1_def keysStrictEqualsZero_def Let_def
        parseKeyOnly_def)

end
